theory Spec2Isabelle
  imports Main "HOL-Library.Word" "HOL-Library.Sublist"
begin

section \<open>Strings of the host language\<close>

text \<open>
  A string of the source language is a sequence of 16-bit code units. The three library
  functions that \<open>handleSubmit\<close> calls on the search term, \<open>trim\<close>, \<open>toLowerCase\<close> and
  \<open>encodeURIComponent\<close>, are modelled after the language standard, on code units.
\<close>

type_synonym code_unit = "16 word"
type_synonym js_string = "code_unit list"

text \<open>A string literal of the source, given by its ASCII characters.\<close>

definition lit :: "string \<Rightarrow> js_string" where
  "lit s = map (\<lambda>c. of_nat (of_char c)) s"

datatype js_error = URIError

subsection \<open>\<open>String.prototype.trim\<close>\<close>

text \<open>
  White space and line terminators of the standard: TAB, LF, VT, FF, CR, SPACE, NBSP,
  U+1680, U+2000 to U+200A, U+2028, U+2029, U+202F, U+205F, U+3000 and U+FEFF.
\<close>

definition isWhiteSpace :: "code_unit \<Rightarrow> bool" where
  "isWhiteSpace c \<longleftrightarrow>
     c \<in> {0x0009, 0x000A, 0x000B, 0x000C, 0x000D, 0x0020, 0x00A0, 0x1680,
          0x2028, 0x2029, 0x202F, 0x205F, 0x3000, 0xFEFF}
     \<or> (0x2000 \<le> c \<and> c \<le> 0x200A)"

definition trim :: "js_string \<Rightarrow> js_string" where
  "trim s = rev (dropWhile isWhiteSpace (rev (dropWhile isWhiteSpace s)))"

subsection \<open>\<open>String.prototype.toLowerCase\<close>\<close>

text \<open>
  \<open>toLowerCase\<close> maps a string through the case tables of the Unicode Character Database,
  which belong to the host and not to the repository. On a string of ASCII code units the
  result is fixed without the tables: \<open>A\<close> to \<open>Z\<close> become \<open>a\<close> to \<open>z\<close> and every other
  unit stays. On any other string the result is what the table gives; the table is the
  parameter \<open>ucd\<close>, and every theorem below holds for every table.
\<close>

definition isAscii :: "code_unit \<Rightarrow> bool" where
  "isAscii c \<longleftrightarrow> c < 0x80"

definition asciiLower :: "code_unit \<Rightarrow> code_unit" where
  "asciiLower c = (if 0x41 \<le> c \<and> c \<le> 0x5A then c + 0x20 else c)"

definition toLowerCase :: "(js_string \<Rightarrow> js_string) \<Rightarrow> js_string \<Rightarrow> js_string" where
  "toLowerCase ucd s = (if list_all isAscii s then map asciiLower s else ucd s)"

subsection \<open>\<open>encodeURIComponent\<close>\<close>

text \<open>
  The standard's \<open>Encode\<close> with the unreserved set of \<open>encodeURIComponent\<close>: letters,
  digits and \<open>_ - . ! ~ * ' ( )\<close> are copied; every other code point is written as the
  octets of its UTF-8 form, each as \<open>%\<close> and two upper-case hexadecimal digits. A
  surrogate code unit that is not part of a lead/trail pair raises \<open>URIError\<close>.
\<close>

definition isLeadSurrogate :: "code_unit \<Rightarrow> bool" where
  "isLeadSurrogate c \<longleftrightarrow> 0xD800 \<le> c \<and> c \<le> 0xDBFF"

definition isTrailSurrogate :: "code_unit \<Rightarrow> bool" where
  "isTrailSurrogate c \<longleftrightarrow> 0xDC00 \<le> c \<and> c \<le> 0xDFFF"

definition surrogatePairToCodePoint :: "code_unit \<Rightarrow> code_unit \<Rightarrow> nat" where
  "surrogatePairToCodePoint lead trail =
     (unat lead - 0xD800) * 0x400 + (unat trail - 0xDC00) + 0x10000"

definition uriUnescaped :: "code_unit \<Rightarrow> bool" where
  "uriUnescaped c \<longleftrightarrow>
     (0x41 \<le> c \<and> c \<le> 0x5A) \<or> (0x61 \<le> c \<and> c \<le> 0x7A) \<or> (0x30 \<le> c \<and> c \<le> 0x39)
     \<or> c \<in> {0x5F, 0x2D, 0x2E, 0x21, 0x7E, 0x2A, 0x27, 0x28, 0x29}"

definition utf8Octets :: "nat \<Rightarrow> nat list" where
  "utf8Octets cp =
     (if cp < 0x80 then [cp]
      else if cp < 0x800 then [0xC0 + cp div 0x40, 0x80 + cp mod 0x40]
      else if cp < 0x10000 then
        [0xE0 + cp div 0x1000, 0x80 + cp div 0x40 mod 0x40, 0x80 + cp mod 0x40]
      else
        [0xF0 + cp div 0x40000, 0x80 + cp div 0x1000 mod 0x40,
         0x80 + cp div 0x40 mod 0x40, 0x80 + cp mod 0x40])"

definition hexDigit :: "nat \<Rightarrow> code_unit" where
  "hexDigit n = of_nat (if n < 10 then 0x30 + n else 0x41 + (n - 10))"

definition percentOctet :: "nat \<Rightarrow> js_string" where
  "percentOctet b = [0x25, hexDigit (b div 16), hexDigit (b mod 16)]"

definition percentOctets :: "nat list \<Rightarrow> js_string" where
  "percentOctets bs = concat (map percentOctet bs)"

text \<open>Appending to the result of the rest of the loop, which may have raised.\<close>

definition thenAppend :: "js_string \<Rightarrow> js_error + js_string \<Rightarrow> js_error + js_string" where
  "thenAppend out r = (case r of Inl e \<Rightarrow> Inl e | Inr rest \<Rightarrow> Inr (out @ rest))"

fun encodeURIComponent :: "js_string \<Rightarrow> js_error + js_string" where
  "encodeURIComponent [] = Inr []"
| "encodeURIComponent (c # cs) =
     (if uriUnescaped c then thenAppend [c] (encodeURIComponent cs)
      else if isTrailSurrogate c then Inl URIError
      else if isLeadSurrogate c then
        (case cs of
           [] \<Rightarrow> Inl URIError
         | d # ds \<Rightarrow>
             if isTrailSurrogate d
             then thenAppend (percentOctets (utf8Octets (surrogatePairToCodePoint c d)))
                    (encodeURIComponent ds)
             else Inl URIError)
      else thenAppend (percentOctets (utf8Octets (unat c))) (encodeURIComponent cs))"

text \<open>
  A string is well formed when each of its surrogate code units belongs to a lead/trail
  pair (the standard's \<open>isWellFormed\<close>).
\<close>

fun wellFormed :: "js_string \<Rightarrow> bool" where
  "wellFormed [] = True"
| "wellFormed (c # cs) =
     (if isTrailSurrogate c then False
      else if isLeadSurrogate c then
        (case cs of [] \<Rightarrow> False | d # ds \<Rightarrow> isTrailSurrogate d \<and> wellFormed ds)
      else wellFormed cs)"

text \<open>The code units that \<open>encodeURIComponent\<close> can write: the unreserved ones and \<open>%\<close>.\<close>

definition uriSafe :: "code_unit \<Rightarrow> bool" where
  "uriSafe c \<longleftrightarrow> uriUnescaped c \<or> c = 0x25"

section \<open>Percent-decoding, as the specification uses it\<close>

text \<open>
  The specification's testable property percent-decodes the path segment of the address.
  \<open>spec_percent_decode\<close> is that decoding, written after the specification's words and the
  standard's \<open>decodeURIComponent\<close>, and not taken from the repository (which never
  decodes): every \<open>%XY\<close> becomes an octet, runs of octets are read as UTF-8 (shortest form
  only, no surrogates, at most U+10FFFF), and each code point is written back as one or
  two code units. \<open>None\<close> stands for the decoder's \<open>URIError\<close>.
\<close>

definition hexValue :: "code_unit \<Rightarrow> nat option" where
  "hexValue c =
     (if 0x30 \<le> c \<and> c \<le> 0x39 then Some (unat c - 0x30)
      else if 0x41 \<le> c \<and> c \<le> 0x46 then Some (unat c - 0x41 + 10)
      else if 0x61 \<le> c \<and> c \<le> 0x66 then Some (unat c - 0x61 + 10)
      else None)"

datatype token = Literal code_unit | Octet nat

fun unescape :: "js_string \<Rightarrow> token list option" where
  "unescape [] = Some []"
| "unescape (c # cs) =
     (if c = 0x25 then
        (case cs of
           h # l # rest \<Rightarrow>
             (case (hexValue h, hexValue l) of
                (Some a, Some b) \<Rightarrow> map_option ((#) (Octet (16 * a + b))) (unescape rest)
              | _ \<Rightarrow> None)
         | _ \<Rightarrow> None)
      else map_option ((#) (Literal c)) (unescape cs))"

definition continuation :: "nat \<Rightarrow> bool" where
  "continuation b \<longleftrightarrow> 0x80 \<le> b \<and> b < 0xC0"

definition codePointUnits :: "nat \<Rightarrow> js_string" where
  "codePointUnits cp =
     (if cp < 0x10000 then [of_nat cp]
      else [of_nat (0xD800 + (cp - 0x10000) div 0x400),
            of_nat (0xDC00 + (cp - 0x10000) mod 0x400)])"

definition scalarValue :: "nat \<Rightarrow> bool" where
  "scalarValue cp \<longleftrightarrow> cp < 0x110000 \<and> \<not> (0xD800 \<le> cp \<and> cp < 0xE000)"

fun utf8Decode :: "token list \<Rightarrow> js_string option" where
  "utf8Decode [] = Some []"
| "utf8Decode (Literal c # ts) = map_option ((#) c) (utf8Decode ts)"
| "utf8Decode (Octet b # ts) =
     (if b < 0x80 then map_option ((@) (codePointUnits b)) (utf8Decode ts)
      else if 0xC2 \<le> b \<and> b < 0xE0 then
        (case ts of
           Octet b1 # r \<Rightarrow>
             if continuation b1
             then map_option ((@) (codePointUnits ((b - 0xC0) * 0x40 + (b1 - 0x80))))
                    (utf8Decode r)
             else None
         | _ \<Rightarrow> None)
      else if 0xE0 \<le> b \<and> b < 0xF0 then
        (case ts of
           Octet b1 # Octet b2 # r \<Rightarrow>
             (let cp = (b - 0xE0) * 0x1000 + (b1 - 0x80) * 0x40 + (b2 - 0x80)
              in if continuation b1 \<and> continuation b2 \<and> 0x800 \<le> cp \<and> scalarValue cp
                 then map_option ((@) (codePointUnits cp)) (utf8Decode r)
                 else None)
         | _ \<Rightarrow> None)
      else if 0xF0 \<le> b \<and> b < 0xF5 then
        (case ts of
           Octet b1 # Octet b2 # Octet b3 # r \<Rightarrow>
             (let cp = (b - 0xF0) * 0x40000 + (b1 - 0x80) * 0x1000
                       + (b2 - 0x80) * 0x40 + (b3 - 0x80)
              in if continuation b1 \<and> continuation b2 \<and> continuation b3
                    \<and> 0x10000 \<le> cp \<and> scalarValue cp
                 then map_option ((@) (codePointUnits cp)) (utf8Decode r)
                 else None)
         | _ \<Rightarrow> None)
      else None)"

definition spec_percent_decode :: "js_string \<Rightarrow> js_string option" where
  "spec_percent_decode s = (case unescape s of None \<Rightarrow> None | Some ts \<Rightarrow> utf8Decode ts)"

section \<open>The application\<close>

text \<open>
  \<open>App\<close> holds \<open>searchTerm\<close>, \<open>submittedTerm\<close> and \<open>imageUrl\<close>; \<open>ImageDisplay\<close>, which
  \<open>App\<close> always renders, holds \<open>error\<close> and \<open>isLoading\<close>. One record carries the five
  state cells; \<open>None\<close> is the source's \<open>null\<close>.
\<close>

record app_state =
  searchTerm :: js_string
  submittedTerm :: js_string
  imageUrl :: "js_string option"
  error :: "js_string option"
  isLoading :: bool

text \<open>The initial values of the five \<open>useState\<close> calls.\<close>

definition initial :: app_state where
  "initial = \<lparr>searchTerm = [], submittedTerm = [], imageUrl = None,
              error = None, isLoading = False\<rparr>"

text \<open>A value used as a condition: \<open>null\<close> and the empty string count as false.\<close>

definition truthy :: "js_string option \<Rightarrow> bool" where
  "truthy v = (case v of None \<Rightarrow> False | Some s \<Rightarrow> s \<noteq> [])"

subsection \<open>The effect of \<open>ImageDisplay\<close>\<close>

text \<open>
  The body of the \<open>useEffect\<close> of \<open>ImageDisplay\<close>. Its dependency list is \<open>[imageUrl]\<close>:
  after an event has been handled the effect runs if and only if \<open>imageUrl\<close> is no longer
  the value of the previous render (strings compare by content, \<open>null\<close> equals \<open>null\<close>).
  \<open>commit\<close> is that re-render. An event and the effect it triggers are one step of the
  model. The effect of the first render finds \<open>imageUrl = null\<close> and writes the initial
  values again, so \<open>initial\<close> is also the state after mounting.
\<close>

definition imageUrlEffect :: "app_state \<Rightarrow> app_state" where
  "imageUrlEffect st =
     (if truthy (imageUrl st) then st\<lparr>error := None, isLoading := True\<rparr>
      else st\<lparr>isLoading := False, error := None\<rparr>)"

definition commit :: "app_state \<Rightarrow> app_state \<Rightarrow> app_state" where
  "commit prev next =
     (if imageUrl next \<noteq> imageUrl prev then imageUrlEffect next else next)"

subsection \<open>\<open>handleSubmit\<close>\<close>

definition basePath :: js_string where
  "basePath = lit ''https://fundacioncnse-dilse.org/bddilse/images/stories/''"

text \<open>
  The template literal of \<open>handleSubmit\<close> that builds the address (the specification's
  URL Resolver). It raises what \<open>encodeURIComponent\<close> raises.
\<close>

definition resolveUrl :: "js_string \<Rightarrow> js_error + js_string" where
  "resolveUrl cleanTerm =
     (case encodeURIComponent cleanTerm of
        Inl e \<Rightarrow> Inl e
      | Inr segment \<Rightarrow> Inr (basePath @ segment @ lit ''.png''))"

text \<open>
  \<open>handleSubmit\<close> returns the exception that leaves the handler, if any, and the state
  after the updates it has requested (\<open>preventDefault\<close> changes no state cell). \<open>setSubmittedTerm(cleanTerm)\<close> is requested before
  the address is built, so it stays requested when building the address raises; the
  framework applies the updates a handler requested before it raised.
\<close>

definition handleSubmit ::
  "(js_string \<Rightarrow> js_string) \<Rightarrow> app_state \<Rightarrow> js_error option \<times> app_state" where
  "handleSubmit ucd st =
     (let cleanTerm = toLowerCase ucd (trim (searchTerm st)) in
      if cleanTerm = [] then (None, st\<lparr>imageUrl := None, submittedTerm := []\<rparr>)
      else
        (let st1 = st\<lparr>submittedTerm := cleanTerm\<rparr> in
         case resolveUrl cleanTerm of
           Inl e \<Rightarrow> (Some e, st1)
         | Inr url \<Rightarrow> (None, st1\<lparr>imageUrl := Some url\<rparr>)))"

text \<open>Submitting the form: the handler, then the re-render with its effect.\<close>

definition submit ::
  "(js_string \<Rightarrow> js_string) \<Rightarrow> app_state \<Rightarrow> js_error option \<times> app_state" where
  "submit ucd st = (case handleSubmit ucd st of (thrown, st') \<Rightarrow> (thrown, commit st st'))"

subsection \<open>The handlers of the image element\<close>

text \<open>
  The message of \<open>handleImageError\<close>; \<open>0xF3\<close> and \<open>0xED\<close> are the accented letters of
  the Spanish text and \<open>0x22\<close> is the double quote. \<open>ImageDisplay\<close> receives
  \<open>submittedTerm\<close> as its \<open>searchTerm\<close> property.
\<close>

definition notFoundMessage :: "js_string \<Rightarrow> js_string" where
  "notFoundMessage w =
     lit ''No se encontr'' @ [0xF3] @ lit '' la imagen para la palabra: '' @ [0x22]
     @ w @ [0x22] @ lit ''. Por favor, verifica la ortograf'' @ [0xED] @ lit ''a.''"

definition handleImageError :: "app_state \<Rightarrow> app_state" where
  "handleImageError st =
     st\<lparr>error := Some (notFoundMessage (submittedTerm st)), isLoading := False\<rparr>"

definition handleImageLoad :: "app_state \<Rightarrow> app_state" where
  "handleImageLoad st = st\<lparr>isLoading := False\<rparr>"

subsection \<open>What \<open>ImageDisplay\<close> renders\<close>

text \<open>
  With neither an address nor an error, \<open>ImageDisplay\<close> returns the placeholder and no
  image element. Otherwise it renders the spinner while loading, the error box when there
  is an error and no loading, and the image element, hidden while loading or in error.
\<close>

definition showsPlaceholder :: "app_state \<Rightarrow> bool" where
  "showsPlaceholder st \<longleftrightarrow> \<not> truthy (imageUrl st) \<and> \<not> truthy (error st)"

record view =
  placeholder :: bool
  spinner :: bool
  errorBox :: "js_string option"
  imageVisible :: bool

definition render :: "app_state \<Rightarrow> view" where
  "render st =
     (if showsPlaceholder st
      then \<lparr>placeholder = True, spinner = False, errorBox = None, imageVisible = False\<rparr>
      else \<lparr>placeholder = False,
            spinner = isLoading st,
            errorBox = (if truthy (error st) \<and> \<not> isLoading st then error st else None),
            imageVisible = (\<not> (isLoading st \<or> truthy (error st)))\<rparr>)"

text \<open>
  The four states of the specification, read off the rendered view: the placeholder is
  \<open>Idle\<close>, the spinner \<open>Pending\<close>, the error box \<open>Failure\<close>, the visible image \<open>Success\<close>.
\<close>

datatype phase = Idle | Pending | Success | Failure

definition phase :: "app_state \<Rightarrow> phase" where
  "phase st =
     (let v = render st in
      if placeholder v then Idle
      else if spinner v then Pending
      else if errorBox v \<noteq> None then Failure
      else Success)"

subsection \<open>Events\<close>

text \<open>
  The events the application reacts to: typing into the input, submitting the form, and
  the two notifications of the image element. A notification carries the address whose
  load it reports; \<open>handleImageLoad\<close> and \<open>handleImageError\<close> take no argument, so
  \<open>dispatch\<close> never looks at it. The two handlers exist only while the image element is
  rendered, that is, while the placeholder is not shown.
\<close>

datatype event = Change js_string | Submit | ImageLoad js_string | ImageError js_string

fun dispatch :: "(js_string \<Rightarrow> js_string) \<Rightarrow> app_state \<Rightarrow> event \<Rightarrow> app_state" where
  "dispatch ucd st (Change v) = st\<lparr>searchTerm := v\<rparr>"
| "dispatch ucd st Submit = snd (submit ucd st)"
| "dispatch ucd st (ImageLoad src) = (if showsPlaceholder st then st else handleImageLoad st)"
| "dispatch ucd st (ImageError src) = (if showsPlaceholder st then st else handleImageError st)"

definition run :: "(js_string \<Rightarrow> js_string) \<Rightarrow> app_state \<Rightarrow> event list \<Rightarrow> app_state" where
  "run ucd st es = foldl (dispatch ucd) st es"

text \<open>The states the application can be in: those some sequence of events leads to.\<close>

inductive reachable :: "(js_string \<Rightarrow> js_string) \<Rightarrow> app_state \<Rightarrow> bool"
  for ucd :: "js_string \<Rightarrow> js_string" where
  reachable_initial: "reachable ucd initial"
| reachable_dispatch: "reachable ucd st \<Longrightarrow> reachable ucd (dispatch ucd st e)"

text \<open>
  What holds of every reachable state: without an address there is neither an error nor
  loading; loading excludes an error; neither the error nor the address is the empty
  string; and the address is the one of the submitted term whenever that term resolves.
\<close>

definition consistent :: "app_state \<Rightarrow> bool" where
  "consistent st \<longleftrightarrow>
     (imageUrl st = None \<longrightarrow> error st = None \<and> \<not> isLoading st) \<and>
     (isLoading st \<longrightarrow> error st = None) \<and>
     error st \<noteq> Some [] \<and>
     imageUrl st \<noteq> Some [] \<and>
     (submittedTerm st = [] \<longrightarrow> imageUrl st = None) \<and>
     (submittedTerm st \<noteq> [] \<longrightarrow>
        (case resolveUrl (submittedTerm st) of
           Inl e \<Rightarrow> True
         | Inr url \<Rightarrow> imageUrl st = Some url))"

subsection \<open>Two runs used as examples\<close>

text \<open>
  With a table that maps every string to itself (no theorem depends on the table, and on
  ASCII text it is never consulted): \<open>casa\<close> typed and submitted in the initial state,
  and the same followed by the failure of that load.
\<close>

definition casaPending :: app_state where
  "casaPending = run id initial [Change (lit ''casa''), Submit]"

definition casaFailed :: app_state where
  "casaFailed = dispatch id casaPending (ImageError (basePath @ lit ''casa.png''))"

section \<open>Properties of the string functions and of the state\<close>

subsection \<open>Percent escapes are read back\<close>

text \<open>Every octet written as \<open>%\<close> and two hexadecimal digits is read back by \<open>unescape\<close>.\<close>

lemma hexValue_hexDigit: "n < 16 \<Longrightarrow> hexValue (hexDigit n) = Some n"
  by (simp add: hexValue_def hexDigit_def word_le_nat_alt unat_of_nat)

lemma unescape_percentOctet:
  "b < 256 \<Longrightarrow> unescape (percentOctet b @ r) = map_option ((#) (Octet b)) (unescape r)"
  by (simp add: percentOctet_def hexValue_hexDigit)

lemma unescape_percentOctets:
  "\<forall>b\<in>set bs. b < 256 \<Longrightarrow>
   unescape (percentOctets bs @ r) = map_option ((@) (map Octet bs)) (unescape r)"
proof (induction bs)
  case Nil
  then show ?case by (simp add: percentOctets_def option.map_ident)
next
  case (Cons b bs)
  then show ?case
   by (simp add: percentOctets_def unescape_percentOctet option.map_comp comp_def del: unescape.simps)
qed

lemma utf8Octets_bound: "cp < 0x110000 \<Longrightarrow> \<forall>b\<in>set (utf8Octets cp). b < 256"
  by (auto simp: utf8Octets_def)

lemma scalarValue_octets_bound: "scalarValue cp \<Longrightarrow> \<forall>b\<in>set (utf8Octets cp). b < 256"
  by (rule utf8Octets_bound) (simp add: scalarValue_def)

subsection \<open>UTF-8 is read back\<close>

text \<open>The octets of a scalar value decode to that value, by the number of octets.\<close>

lemma utf8Decode_octets2:
  assumes "2 \<le> q" "q < 0x20" "r < 0x40"
  shows "utf8Decode (Octet (0xC0 + q) # Octet (0x80 + r) # ts)
         = map_option ((@) (codePointUnits (q * 0x40 + r))) (utf8Decode ts)"
  using assms by (simp add: continuation_def)

lemma utf8Decode_octets3:
  assumes "q < 0x10" "r < 0x40" "s < 0x40" "0x800 \<le> q * 0x1000 + r * 0x40 + s"
     "scalarValue (q * 0x1000 + r * 0x40 + s)"
  shows "utf8Decode (Octet (0xE0 + q) # Octet (0x80 + r) # Octet (0x80 + s) # ts)
         = map_option ((@) (codePointUnits (q * 0x1000 + r * 0x40 + s))) (utf8Decode ts)"
  using assms by (simp add: continuation_def Let_def)

lemma utf8Decode_octets4:
  assumes "q < 5" "r < 0x40" "s < 0x40" "t < 0x40"
     "0x10000 \<le> q * 0x40000 + r * 0x1000 + s * 0x40 + t"
     "scalarValue (q * 0x40000 + r * 0x1000 + s * 0x40 + t)"
  shows "utf8Decode (Octet (0xF0 + q) # Octet (0x80 + r) # Octet (0x80 + s) # Octet (0x80 + t) # ts)
         = map_option ((@) (codePointUnits (q * 0x40000 + r * 0x1000 + s * 0x40 + t))) (utf8Decode ts)"
  using assms by (simp add: continuation_def Let_def)

lemma radix64: "(a::nat) div 0x40 * (0x40 * k) + a mod 0x40 * k = a * k"
proof -
  have "a div 0x40 * (0x40 * k) + a mod 0x40 * k = (a div 0x40 * 0x40 + a mod 0x40) * k"
    by (simp only: add_mult_distrib mult.assoc)
  also have "\<dots> = a * k"
    by (simp only: div_mult_mod_eq)
  finally show ?thesis .
qed

lemma split3: "(cp::nat) div 0x1000 * 0x1000 + cp div 0x40 mod 0x40 * 0x40 + cp mod 0x40 = cp"
proof -
  have "cp div 0x1000 = cp div 0x40 div 0x40" by (simp add: div_mult2_eq[symmetric])
  then have "cp div 0x1000 * 0x1000 + cp div 0x40 mod 0x40 * 0x40 = cp div 0x40 * 0x40"
    using radix64[of "cp div 0x40" "0x40"] by simp
  then show ?thesis by simp
qed

lemma split4: "(cp::nat) div 0x40000 * 0x40000 + cp div 0x1000 mod 0x40 * 0x1000
      + cp div 0x40 mod 0x40 * 0x40 + cp mod 0x40 = cp"
proof -
  have "cp div 0x40000 = cp div 0x1000 div 0x40" by (simp add: div_mult2_eq[symmetric])
  then have "cp div 0x40000 * 0x40000 + cp div 0x1000 mod 0x40 * 0x1000 = cp div 0x1000 * 0x1000"
    using radix64[of "cp div 0x1000" "0x1000"] by simp
  then show ?thesis using split3[of cp] by simp
qed

lemma utf8Decode_utf8Octets:
  assumes "scalarValue cp"
  shows "utf8Decode (map Octet (utf8Octets cp) @ ts)
         = map_option ((@) (codePointUnits cp)) (utf8Decode ts)"
proof -
  have lt: "cp < 0x110000" using assms by (simp add: scalarValue_def)
  consider "cp < 0x80" | "0x80 \<le> cp" "cp < 0x800" | "0x800 \<le> cp" "cp < 0x10000" | "0x10000 \<le> cp"
    by linarith
  then show ?thesis
  proof cases
    case 1
    then show ?thesis by (simp add: utf8Octets_def)
  next
    case 2
    have "2 \<le> cp div 0x40" "cp div 0x40 < 0x20" "cp mod 0x40 < 0x40" using 2 by simp_all
    from utf8Decode_octets2[OF this, of ts] 2 show ?thesis
      by (simp add: utf8Octets_def)
  next
    case 3
    let ?q = "cp div 0x1000" and ?r = "cp div 0x40 mod 0x40" and ?s = "cp mod 0x40"
    have eq: "?q * 0x1000 + ?r * 0x40 + ?s = cp" by (rule split3)
    have "?q < 0x10" "?r < 0x40" "?s < 0x40" using 3 by simp_all
    moreover have "0x800 \<le> ?q * 0x1000 + ?r * 0x40 + ?s" 
      "scalarValue (?q * 0x1000 + ?r * 0x40 + ?s)" using 3 assms by (simp_all only: eq)
    ultimately have "utf8Decode (Octet (0xE0 + ?q) # Octet (0x80 + ?r) # Octet (0x80 + ?s) # ts)
         = map_option ((@) (codePointUnits (?q * 0x1000 + ?r * 0x40 + ?s))) (utf8Decode ts)"
      by (rule utf8Decode_octets3)
    then show ?thesis using 3 by (simp add: utf8Octets_def eq del: utf8Decode.simps)
  next
    case 4
    let ?q = "cp div 0x40000" and ?r = "cp div 0x1000 mod 0x40" and ?s = "cp div 0x40 mod 0x40"
      and ?t = "cp mod 0x40"
    have eq: "?q * 0x40000 + ?r * 0x1000 + ?s * 0x40 + ?t = cp" by (rule split4)
    have "?q < 5" "?r < 0x40" "?s < 0x40" "?t < 0x40" using lt by simp_all
    moreover have "0x10000 \<le> ?q * 0x40000 + ?r * 0x1000 + ?s * 0x40 + ?t" 
      "scalarValue (?q * 0x40000 + ?r * 0x1000 + ?s * 0x40 + ?t)" using 4 assms by (simp_all only: eq)
    ultimately have "utf8Decode (Octet (0xF0 + ?q) # Octet (0x80 + ?r) # Octet (0x80 + ?s) # Octet (0x80 + ?t) # ts)
         = map_option ((@) (codePointUnits (?q * 0x40000 + ?r * 0x1000 + ?s * 0x40 + ?t))) (utf8Decode ts)"
      by (rule utf8Decode_octets4)
    then show ?thesis using 4 by (simp add: utf8Octets_def eq del: utf8Decode.simps)
  qed
qed

subsection \<open>Code points and code units\<close>

text \<open>A code unit outside the surrogate range, and a surrogate pair, are scalar values that are written back as the same code units.\<close>

lemma codePointUnits_unat: "codePointUnits (unat (c::code_unit)) = [c]"
proof -
  have "unat c < 0x10000" using unsigned_less[of c, where ?'a = nat] by simp
  then show ?thesis by (simp add: codePointUnits_def)
qed

lemma codePointUnits_pair:
  assumes "isLeadSurrogate c" "isTrailSurrogate d"
  shows "codePointUnits (surrogatePairToCodePoint c d) = [c, d]"
proof -
  have c: "0xD800 \<le> unat c" "unat c \<le> 0xDBFF" and d: "0xDC00 \<le> unat d" "unat d \<le> 0xDFFF"
    using assms by (simp_all add: isLeadSurrogate_def isTrailSurrogate_def word_le_nat_alt)
  define h where "h = unat c - 0xD800"
  define l where "l = unat d - 0xDC00"
  have hl: "l < 0x400" "unat c = 0xD800 + h" "unat d = 0xDC00 + l"
    using c d by (simp_all add: h_def l_def)
  have sp: "surrogatePairToCodePoint c d = 0x10000 + (h * 0x400 + l)"
    by (simp add: surrogatePairToCodePoint_def h_def l_def)
  have "(h * 0x400 + l) div 0x400 = h" "(h * 0x400 + l) mod 0x400 = l"
    using hl(1) by simp_all
  then have "codePointUnits (surrogatePairToCodePoint c d) = [of_nat (0xD800 + h), of_nat (0xDC00 + l)]"
    unfolding sp codePointUnits_def by simp
  also have "\<dots> = [of_nat (unat c), of_nat (unat d)]" by (simp only: hl(2,3))
  finally show ?thesis by simp
qed

lemma scalarValue_unat:
  "\<not> isLeadSurrogate c \<Longrightarrow> \<not> isTrailSurrogate c \<Longrightarrow> scalarValue (unat (c::code_unit))"
  using unsigned_less[of c, where ?'a = nat]
  by (auto simp add: scalarValue_def isLeadSurrogate_def isTrailSurrogate_def word_le_nat_alt)

lemma scalarValue_pair:
  assumes "isLeadSurrogate c" "isTrailSurrogate d"
  shows "scalarValue (surrogatePairToCodePoint c d)"
proof -
  have c: "0xD800 \<le> unat c" "unat c \<le> 0xDBFF" and d: "0xDC00 \<le> unat d" "unat d \<le> 0xDFFF"
    using assms by (simp_all add: isLeadSurrogate_def isTrailSurrogate_def word_le_nat_alt)
  then show ?thesis
    by (simp add: scalarValue_def surrogatePairToCodePoint_def)
qed

subsection \<open>Decoding undoes encoding\<close>

text \<open>By computation induction on \<open>encodeURIComponent\<close>, one case for each branch of its loop.\<close>

lemma uriUnescaped_not_percent: "uriUnescaped c \<Longrightarrow> c \<noteq> 0x25"
  by (auto simp: uriUnescaped_def)

lemma unescape_percent_codepoint:
  assumes "scalarValue cp"
  shows "unescape (percentOctets (utf8Octets cp) @ r)
         = map_option ((@) (map Octet (utf8Octets cp))) (unescape r)"
proof -
  have "cp < 0x110000" using assms by (simp add: scalarValue_def)
  then have "\<forall>b\<in>set (utf8Octets cp). b < 256" by (rule utf8Octets_bound)
  then show ?thesis by (rule unescape_percentOctets)
qed

lemma decode_escaped_codepoint:
  assumes "scalarValue cp" "spec_percent_decode r = Some s"
  shows "spec_percent_decode (percentOctets (utf8Octets cp) @ r) = Some (codePointUnits cp @ s)"
proof -
  from assms(2) obtain ts where ts: "unescape r = Some ts" "utf8Decode ts = Some s"
    by (auto simp: spec_percent_decode_def split: option.splits)
  show ?thesis
    by (simp add: spec_percent_decode_def unescape_percent_codepoint[OF assms(1)] ts
        utf8Decode_utf8Octets[OF assms(1)])
qed

lemma decode_unescaped:
  assumes "uriUnescaped c" "spec_percent_decode r = Some s"
  shows "spec_percent_decode (c # r) = Some (c # s)"
proof -
  from assms(2) obtain ts where ts: "unescape r = Some ts" "utf8Decode ts = Some s"
    by (auto simp: spec_percent_decode_def split: option.splits)
  show ?thesis using uriUnescaped_not_percent[OF assms(1)]
    by (simp add: spec_percent_decode_def ts)
qed

lemma thenAppend_Inr: "thenAppend out r = Inr e \<longleftrightarrow> (\<exists>rest. r = Inr rest \<and> e = out @ rest)"
  by (auto simp: thenAppend_def split: sum.splits)

lemma decode_encodeURIComponent:
  "encodeURIComponent s = Inr e \<Longrightarrow> spec_percent_decode e = Some s"
proof (induction s arbitrary: e rule: encodeURIComponent.induct)
  case 1
  then show ?case by (simp add: spec_percent_decode_def)
next
  case (2 c cs)
  show ?case
  proof (cases "uriUnescaped c")
    case True
    with "2.prems" obtain rest where r: "encodeURIComponent cs = Inr rest" "e = c # rest"
      by (auto simp: thenAppend_Inr)
    from "2.IH"(1)[OF True r(1)] show ?thesis
      using decode_unescaped[OF True] r(2) by simp
  next
    case False
    note nu = False
    have nt: "\<not> isTrailSurrogate c" using "2.prems" nu by (auto split: if_splits)
    show ?thesis
    proof (cases "isLeadSurrogate c")
      case True
      with "2.prems" nu nt obtain d ds rest where
        d: "cs = d # ds" "isTrailSurrogate d" "encodeURIComponent ds = Inr rest"
           "e = percentOctets (utf8Octets (surrogatePairToCodePoint c d)) @ rest"
        by (auto simp: thenAppend_Inr split: list.splits if_splits)
      have "spec_percent_decode rest = Some ds"
        using "2.IH"(2)[OF nu nt True d(1) d(2) d(3)] .
      from decode_escaped_codepoint[OF scalarValue_pair[OF True d(2)] this]
      show ?thesis by (simp add: d(1,4) codePointUnits_pair[OF True d(2)])
    next
      case False
      with "2.prems" nu nt obtain rest where
        r: "encodeURIComponent cs = Inr rest" "e = percentOctets (utf8Octets (unat c)) @ rest"
        by (auto simp: thenAppend_Inr)
      have "spec_percent_decode rest = Some cs"
        using "2.IH"(3)[OF nu nt False r(1)] .
      from decode_escaped_codepoint[OF scalarValue_unat[OF False nt] this]
      show ?thesis by (simp add: r(2) codePointUnits_unat)
    qed
  qed
qed

subsection \<open>When encoding succeeds, and what it writes\<close>

text \<open>Encoding succeeds exactly on the well-formed strings, and writes unreserved characters and \<open>%\<close> only.\<close>

lemma uriUnescaped_not_surrogate:
  "uriUnescaped c \<Longrightarrow> \<not> isTrailSurrogate c \<and> \<not> isLeadSurrogate c"
  by (auto simp: uriUnescaped_def isTrailSurrogate_def isLeadSurrogate_def word_le_nat_alt)

lemma encodeURIComponent_cases:
  "encodeURIComponent s = Inl URIError \<or> (\<exists>e. encodeURIComponent s = Inr e)"
  by (cases "encodeURIComponent s") (auto intro: js_error.exhaust)

lemma encodeURIComponent_Inr_iff:
  "(\<exists>e. encodeURIComponent s = Inr e) \<longleftrightarrow> wellFormed s"
proof (induction s rule: encodeURIComponent.induct)
  case 1
  show ?case by simp
next
  case (2 c cs)
  show ?case
  proof (cases "uriUnescaped c")
    case True
    then show ?thesis
      using "2.IH"(1)[OF True] uriUnescaped_not_surrogate[OF True]
      by (simp add: thenAppend_Inr)
  next
    case nu: False
    show ?thesis
    proof (cases "isTrailSurrogate c")
      case True
      then show ?thesis using nu by simp
    next
      case nt: False
      show ?thesis
      proof (cases "isLeadSurrogate c")
        case lead: True
        show ?thesis
        proof (cases cs)
          case Nil
          then show ?thesis using nu nt lead by simp
        next
          case (Cons d ds)
          show ?thesis
          proof (cases "isTrailSurrogate d")
            case True
            then show ?thesis
              using "2.IH"(2)[OF nu nt lead Cons True] nu nt lead Cons
              by (simp add: thenAppend_Inr)
          next
            case False
            then show ?thesis using nu nt lead Cons by simp
          qed
        qed
      next
        case False
        then show ?thesis
          using "2.IH"(3)[OF nu nt False] nu nt by (simp add: thenAppend_Inr)
      qed
    qed
  qed
qed

lemma encodeURIComponent_Inl_iff:
  "encodeURIComponent s = Inl URIError \<longleftrightarrow> \<not> wellFormed s"
  using encodeURIComponent_cases[of s] encodeURIComponent_Inr_iff[of s] by auto

lemma uriSafe_hexDigit: "n < 16 \<Longrightarrow> uriSafe (hexDigit n)"
  by (simp add: uriSafe_def uriUnescaped_def hexDigit_def word_le_nat_alt unat_of_nat)

lemma uriSafe_percentOctet: "b < 256 \<Longrightarrow> list_all uriSafe (percentOctet b)"
  by (simp add: percentOctet_def uriSafe_hexDigit) (simp add: uriSafe_def)

lemma uriSafe_percentOctets: "\<forall>b\<in>set bs. b < 256 \<Longrightarrow> list_all uriSafe (percentOctets bs)"
  by (induction bs) (simp_all add: percentOctets_def uriSafe_percentOctet)

lemma uriSafe_encodeURIComponent:
  "encodeURIComponent s = Inr e \<Longrightarrow> list_all uriSafe e"
proof (induction s arbitrary: e rule: encodeURIComponent.induct)
  case 1
  then show ?case by simp
next
  case (2 c cs)
  show ?case
  proof (cases "uriUnescaped c")
    case True
    with "2.prems" obtain rest where r: "encodeURIComponent cs = Inr rest" "e = c # rest"
      by (auto simp: thenAppend_Inr)
    from "2.IH"(1)[OF True r(1)] show ?thesis
      using True r(2) by (simp add: uriSafe_def)
  next
    case False
    note nu = False
    have nt: "\<not> isTrailSurrogate c" using "2.prems" nu by (auto split: if_splits)
    show ?thesis
    proof (cases "isLeadSurrogate c")
      case True
      with "2.prems" nu nt obtain d ds rest where
        d: "cs = d # ds" "isTrailSurrogate d" "encodeURIComponent ds = Inr rest"
           "e = percentOctets (utf8Octets (surrogatePairToCodePoint c d)) @ rest"
        by (auto simp: thenAppend_Inr split: list.splits if_splits)
      have "list_all uriSafe rest"
        using "2.IH"(2)[OF nu nt True d(1) d(2) d(3)] .
      then show ?thesis
        using uriSafe_percentOctets[OF scalarValue_octets_bound[OF scalarValue_pair[OF True d(2)]]]
        by (simp add: d(4))
    next
      case False
      with "2.prems" nu nt obtain rest where
        r: "encodeURIComponent cs = Inr rest" "e = percentOctets (utf8Octets (unat c)) @ rest"
        by (auto simp: thenAppend_Inr)
      have "list_all uriSafe rest"
        using "2.IH"(3)[OF nu nt False r(1)] .
      then show ?thesis
        using uriSafe_percentOctets[OF scalarValue_octets_bound[OF scalarValue_unat[OF False nt]]]
        by (simp add: r(2))
    qed
  qed
qed

lemma uriSafe_not_slash: "uriSafe c \<Longrightarrow> c \<noteq> 0x2F"
  by (auto simp: uriSafe_def uriUnescaped_def)

subsection \<open>The resolver\<close>

text \<open>The resolver is injective where it returns.\<close>

lemma resolveUrl_Inr:
  "resolveUrl t = Inr url \<longleftrightarrow>
   (\<exists>seg. encodeURIComponent t = Inr seg \<and> url = basePath @ seg @ lit ''.png'')"
  by (auto simp: resolveUrl_def split: sum.splits)

lemma resolveUrl_nonempty: "resolveUrl t = Inr url \<Longrightarrow> url \<noteq> []"
  by (auto simp: resolveUrl_def basePath_def lit_def split: sum.splits)

lemma resolveUrl_inject:
  assumes "resolveUrl a = Inr url" "resolveUrl b = Inr url"
  shows "a = b"
proof -
  from assms obtain sa sb where
    s: "encodeURIComponent a = Inr sa" "encodeURIComponent b = Inr sb"
       "basePath @ sa @ lit ''.png'' = basePath @ sb @ lit ''.png''"
    by (auto simp: resolveUrl_Inr)
  then have "sa = sb" by simp
  with s(1,2) decode_encodeURIComponent[of a sa] decode_encodeURIComponent[of b sb]
  show ?thesis by simp
qed

lemma wellFormed_resolveUrl: "wellFormed t \<Longrightarrow> \<exists>url. resolveUrl t = Inr url"
  using encodeURIComponent_Inr_iff[of t] by (auto simp: resolveUrl_def)

subsection \<open>Trimming and lowering\<close>

text \<open>On ASCII strings trimming and lowering commute; a string of white space trims to the empty string.\<close>

lemma isWhiteSpace_unat:
  "isWhiteSpace c \<longleftrightarrow>
     unat c \<in> {0x0009, 0x000A, 0x000B, 0x000C, 0x000D, 0x0020, 0x00A0, 0x1680,
          0x2028, 0x2029, 0x202F, 0x205F, 0x3000, 0xFEFF}
     \<or> (0x2000 \<le> unat c \<and> unat c \<le> 0x200A)"
  by (simp add: isWhiteSpace_def word_le_nat_alt word_unat_eq_iff)

lemma isWhiteSpace_asciiLower: "isWhiteSpace (asciiLower c) = isWhiteSpace c"
proof (cases "0x41 \<le> c \<and> c \<le> 0x5A")
  case True
  then have u: "0x41 \<le> unat c" "unat c \<le> 0x5A" by (simp_all add: word_le_nat_alt)
  then have "unat (c + 0x20) = unat c + 0x20" by (simp add: unat_word_ariths)
  with u have "0x61 \<le> unat (c + 0x20)" "unat (c + 0x20) \<le> 0x7A" by simp_all
  then have "\<not> isWhiteSpace (c + 0x20)"
    unfolding isWhiteSpace_unat by auto
  moreover have "\<not> isWhiteSpace c" using u
    unfolding isWhiteSpace_unat by auto
  ultimately show ?thesis using True by (simp add: asciiLower_def)
next
  case False
  then show ?thesis by (auto simp add: asciiLower_def)
qed

lemma trim_map_asciiLower: "trim (map asciiLower s) = map asciiLower (trim s)"
  by (simp add: trim_def dropWhile_map rev_map comp_def isWhiteSpace_asciiLower)

lemma list_all_dropWhile: "list_all P xs \<Longrightarrow> list_all P (dropWhile Q xs)"
  by (induction xs) simp_all

lemma isAscii_trim: "list_all isAscii s \<Longrightarrow> list_all isAscii (trim s)"
  by (simp add: trim_def list_all_dropWhile)

lemma trim_toLowerCase_ascii:
  "list_all isAscii s \<Longrightarrow> trim (toLowerCase ucd s) = toLowerCase ucd (trim s)"
  by (simp add: toLowerCase_def isAscii_trim trim_map_asciiLower)

lemma trim_whitespace: "list_all isWhiteSpace s \<Longrightarrow> trim s = []"
proof -
  assume "list_all isWhiteSpace s"
  then have empty: "dropWhile isWhiteSpace s = []"
    by (simp add: list_all_iff dropWhile_eq_Nil_conv)
  show ?thesis unfolding trim_def empty by simp
qed

lemma toLowerCase_Nil: "toLowerCase ucd [] = []"
  by (simp add: toLowerCase_def)

subsection \<open>Submitting\<close>

text \<open>The three ways through \<open>handleSubmit\<close>, and the state each leaves after the re-render.\<close>

lemma submit_empty:
  "toLowerCase ucd (trim (searchTerm st)) = [] \<Longrightarrow>
   submit ucd st = (None, commit st (st\<lparr>imageUrl := None, submittedTerm := []\<rparr>))"
  by (simp add: submit_def handleSubmit_def)

lemma submit_thrown:
  "toLowerCase ucd (trim (searchTerm st)) = t \<Longrightarrow> t \<noteq> [] \<Longrightarrow> resolveUrl t = Inl e \<Longrightarrow>
   submit ucd st = (Some e, st\<lparr>submittedTerm := t\<rparr>)"
  by (simp add: submit_def handleSubmit_def commit_def)

lemma submit_resolved:
  "toLowerCase ucd (trim (searchTerm st)) = t \<Longrightarrow> t \<noteq> [] \<Longrightarrow> resolveUrl t = Inr url \<Longrightarrow>
   submit ucd st = (None, commit st (st\<lparr>submittedTerm := t, imageUrl := Some url\<rparr>))"
  by (simp add: submit_def handleSubmit_def)

lemma submit_resolved_imageUrl:
  assumes "toLowerCase ucd (trim (searchTerm st)) = t" "t \<noteq> []" "resolveUrl t = Inr url"
  shows "imageUrl (snd (submit ucd st)) = Some url"
  using submit_resolved[OF assms] by (simp add: commit_def imageUrlEffect_def)

lemma submit_submittedTerm:
  "submittedTerm (snd (submit ucd st)) = toLowerCase ucd (trim (searchTerm st))"
  by (simp add: submit_def handleSubmit_def commit_def imageUrlEffect_def Let_def
      split: sum.splits)

lemma submit_new_reference:
  assumes "toLowerCase ucd (trim (searchTerm st)) = t" "t \<noteq> []" "resolveUrl t = Inr url"
    "imageUrl st \<noteq> Some url"
  shows "submit ucd st = (None, st\<lparr>submittedTerm := t, imageUrl := Some url,
                                   error := None, isLoading := True\<rparr>)"
  using submit_resolved[OF assms(1-3)] assms(4) resolveUrl_nonempty[OF assms(3)]
  by (simp add: commit_def imageUrlEffect_def truthy_def)

lemma submit_same_reference:
  assumes "toLowerCase ucd (trim (searchTerm st)) = t" "t \<noteq> []" "resolveUrl t = Inr url"
    "imageUrl st = Some url"
  shows "submit ucd st = (None, st\<lparr>submittedTerm := t, imageUrl := Some url\<rparr>)"
  using submit_resolved[OF assms(1-3)] assms(4)
  by (simp add: commit_def)

subsection \<open>The displayed state\<close>

text \<open>The displayed state in terms of the state cells, and the message of a failed load.\<close>

lemma notFoundMessage_nonempty: "notFoundMessage t \<noteq> []"
  by (simp add: notFoundMessage_def lit_def)

lemma sublist_notFoundMessage: "sublist t (notFoundMessage t)"
proof -
  have "notFoundMessage t
        = (lit ''No se encontr'' @ [0xF3] @ lit '' la imagen para la palabra: '' @ [0x22])
          @ t @ ([0x22] @ lit ''. Por favor, verifica la ortograf'' @ [0xED] @ lit ''a.'')"
    by (simp add: notFoundMessage_def)
  then show ?thesis unfolding sublist_def by blast
qed

lemma phase_eq:
  "phase st = (if showsPlaceholder st then Idle else if isLoading st then Pending
               else if truthy (error st) then Failure else Success)"
  by (auto simp: phase_def render_def Let_def truthy_def split: option.splits)

lemma phase_Pending: "phase st = Pending \<longleftrightarrow> \<not> showsPlaceholder st \<and> isLoading st"
  by (simp add: phase_eq)

lemma phase_cong:
  "imageUrl a = imageUrl b \<Longrightarrow> error a = error b \<Longrightarrow> isLoading a = isLoading b \<Longrightarrow>
   phase a = phase b"
  by (simp add: phase_eq showsPlaceholder_def)

lemma phase_new_reference:
  "url \<noteq> [] \<Longrightarrow>
   phase (st\<lparr>submittedTerm := t, imageUrl := Some url, error := None, isLoading := True\<rparr>)
     = Pending"
  by (simp add: phase_eq showsPlaceholder_def truthy_def)

lemma imageError_pending:
  assumes "phase st = Pending"
  shows "phase (dispatch ucd st (ImageError src)) = Failure"
    and "errorBox (render (dispatch ucd st (ImageError src)))
           = Some (notFoundMessage (submittedTerm st))"
  using assms notFoundMessage_nonempty[of "submittedTerm st"]
  by (simp_all add: phase_eq render_def handleImageError_def showsPlaceholder_def truthy_def
      split: if_splits)

subsection \<open>Reachable states are consistent\<close>

text \<open>By rule induction on \<open>reachable\<close>, with one lemma for each event.\<close>

lemma consistent_initial: "consistent initial"
  by (simp add: consistent_def initial_def)

lemma consistent_change: "consistent st \<Longrightarrow> consistent (st\<lparr>searchTerm := v\<rparr>)"
  by (simp add: consistent_def split: sum.splits)

lemma consistent_not_placeholder:
  "consistent st \<Longrightarrow> \<not> showsPlaceholder st \<Longrightarrow> imageUrl st \<noteq> None"
  by (auto simp: consistent_def showsPlaceholder_def truthy_def split: option.splits)

lemma consistent_imageLoad:
  "consistent st \<Longrightarrow> consistent (handleImageLoad st)"
  by (simp add: consistent_def handleImageLoad_def split: sum.splits)

lemma consistent_imageError:
  "consistent st \<Longrightarrow> imageUrl st \<noteq> None \<Longrightarrow> consistent (handleImageError st)"
  by (auto simp add: consistent_def handleImageError_def notFoundMessage_nonempty split: sum.splits)

lemma consistent_submit:
  assumes "consistent st"
  shows "consistent (snd (submit ucd st))"
proof -
  define t where "t = toLowerCase ucd (trim (searchTerm st))"
  show ?thesis
  proof (cases "t = []")
    case True
    then show ?thesis using assms submit_empty[of ucd st]
      by (auto simp: t_def commit_def imageUrlEffect_def consistent_def truthy_def split: sum.splits)
  next
    case False
    show ?thesis
    proof (cases "resolveUrl t")
      case (Inl e)
      then show ?thesis using assms False submit_thrown[of ucd st t e]
        by (auto simp add: t_def consistent_def split: sum.splits)
    next
      case (Inr url)
      then show ?thesis using assms False submit_resolved[of ucd st t url] resolveUrl_nonempty[OF Inr]
        by (auto simp: t_def commit_def imageUrlEffect_def consistent_def truthy_def)
    qed
  qed
qed

lemma consistent_dispatch: "consistent st \<Longrightarrow> consistent (dispatch ucd st e)"
  by (cases e)
     (simp_all add: consistent_change consistent_submit consistent_imageLoad
        consistent_imageError consistent_not_placeholder)

lemma reachable_consistent: "reachable ucd st \<Longrightarrow> consistent st"
  by (induction rule: reachable.induct) (simp_all add: consistent_initial consistent_dispatch)

lemma reachable_run: "reachable ucd st \<Longrightarrow> reachable ucd (run ucd st es)"
  unfolding run_def
  by (induction es arbitrary: st) (simp_all add: reachable_dispatch)

lemma consistent_reference_differs:
  assumes "consistent st" "wellFormed (submittedTerm st)" "resolveUrl t = Inr url"
    "t \<noteq> submittedTerm st"
  shows "imageUrl st \<noteq> Some url"
proof (cases "submittedTerm st = []")
  case True
  then show ?thesis using assms(1) by (simp add: consistent_def)
next
  case False
  from wellFormed_resolveUrl[OF assms(2)] obtain u where u: "resolveUrl (submittedTerm st) = Inr u"
    by blast
  then have "imageUrl st = Some u" using assms(1) False by (simp add: consistent_def)
  moreover have "u \<noteq> url" using resolveUrl_inject[OF assms(3), of "submittedTerm st"] u assms(4)
    by auto
  ultimately show ?thesis by simp
qed

lemma imageLoad_pending:
  assumes "consistent st" "phase st = Pending"
  shows "phase (dispatch ucd st (ImageLoad src)) = Success"
    and "\<not> isLoading (dispatch ucd st (ImageLoad src))"
  using assms
  by (auto simp add: phase_eq handleImageLoad_def showsPlaceholder_def truthy_def
      consistent_def split: if_splits option.splits)

subsection \<open>Events other than a submission\<close>

text \<open>They keep the address and the submitted term, and never start loading.\<close>

lemma dispatch_keeps:
  "e \<noteq> Submit \<Longrightarrow>
   imageUrl (dispatch ucd st e) = imageUrl st \<and> submittedTerm (dispatch ucd st e) = submittedTerm st"
  by (cases e) (simp_all add: handleImageLoad_def handleImageError_def)

lemma run_keeps:
  "Submit \<notin> set es \<Longrightarrow>
   imageUrl (run ucd st es) = imageUrl st \<and> submittedTerm (run ucd st es) = submittedTerm st"
  unfolding run_def
proof (induction es arbitrary: st)
  case Nil
  show ?case by simp
next
  case (Cons e es)
  then have "e \<noteq> Submit" "Submit \<notin> set es" by auto
  then show ?case using Cons.IH[of "dispatch ucd st e"] dispatch_keeps[of e ucd st] by simp
qed

lemma dispatch_not_loading:
  "e \<noteq> Submit \<Longrightarrow> \<not> isLoading st \<Longrightarrow> \<not> isLoading (dispatch ucd st e)"
  by (cases e) (simp_all add: handleImageLoad_def handleImageError_def)

lemma run_not_loading:
  "Submit \<notin> set es \<Longrightarrow> \<not> isLoading st \<Longrightarrow> \<not> isLoading (run ucd st es)"
  unfolding run_def
proof (induction es arbitrary: st)
  case Nil
  then show ?case by simp
next
  case (Cons e es)
  then have "e \<noteq> Submit" "Submit \<notin> set es" by auto
  then show ?case
    using Cons.IH[of "dispatch ucd st e"] dispatch_not_loading[of e st ucd] Cons.prems(2) by simp
qed

subsection \<open>Evaluation\<close>

text \<open>The defining equations that evaluate the model on a concrete input.\<close>

lemmas string_defs =
  lit_def trim_def toLowerCase_def isWhiteSpace_def isAscii_def asciiLower_def
  uriUnescaped_def isLeadSurrogate_def isTrailSurrogate_def thenAppend_def
  percentOctets_def percentOctet_def utf8Octets_def hexDigit_def surrogatePairToCodePoint_def

lemmas app_defs =
  initial_def submit_def handleSubmit_def resolveUrl_def basePath_def commit_def
  imageUrlEffect_def truthy_def handleImageError_def handleImageLoad_def showsPlaceholder_def
  run_def Let_def casaPending_def casaFailed_def

lemma reachable_casaPending: "reachable id casaPending"
  unfolding casaPending_def by (rule reachable_run[OF reachable_initial])

lemma reachable_casaFailed: "reachable id casaFailed"
  unfolding casaFailed_def by (rule reachable_dispatch[OF reachable_casaPending])

lemma casaPending_eq:
  "casaPending = \<lparr>searchTerm = lit ''casa'', submittedTerm = lit ''casa'',
     imageUrl = Some (basePath @ lit ''casa.png''), error = None, isLoading = True\<rparr>"
  by (simp add: app_defs string_defs)

lemma casaFailed_eq:
  "casaFailed = \<lparr>searchTerm = lit ''casa'', submittedTerm = lit ''casa'',
     imageUrl = Some (basePath @ lit ''casa.png''),
     error = Some (notFoundMessage (lit ''casa'')), isLoading = False\<rparr>"
  unfolding casaFailed_def casaPending_eq
  by (simp add: showsPlaceholder_def truthy_def handleImageError_def lit_def)

section \<open>The properties of the specification\<close>

subsection \<open>C1: the address decodes to the normalized term\<close>

text \<open>
  C1, as amended. When the normalized term \<open>toLowerCase (trim s)\<close> of the submitted text
  \<open>s\<close> is not empty and is well formed, submitting raises nothing and sets the address to
  the base path (which ends in a slash), one segment and \<open>.png\<close>. The segment consists of
  unreserved characters and \<open>%\<close> only, so it holds no slash, and percent-decoding it returns
  the normalized term. The code trims first and lowers second; on ASCII input that is the
  same as lowering first and trimming second.
\<close>

theorem submit_url_decodes:
  assumes "toLowerCase ucd (trim (searchTerm st)) = t" and "t \<noteq> []" and "wellFormed t"
  shows "(\<exists>seg. fst (submit ucd st) = None
           \<and> imageUrl (snd (submit ucd st)) = Some (basePath @ seg @ lit ''.png'')
           \<and> list_all uriSafe seg \<and> 0x2F \<notin> set seg
           \<and> spec_percent_decode seg = Some t)
       \<and> last basePath = 0x2F
       \<and> (list_all isAscii (searchTerm st) \<longrightarrow> t = trim (toLowerCase ucd (searchTerm st)))"
proof -
  from assms(3) obtain seg where seg: "encodeURIComponent t = Inr seg"
    using encodeURIComponent_Inr_iff[of t] by blast
  then have url: "resolveUrl t = Inr (basePath @ seg @ lit ''.png'')"
    by (simp add: resolveUrl_def)
  have safe: "list_all uriSafe seg" using seg by (rule uriSafe_encodeURIComponent)
  then have noslash: "0x2F \<notin> set seg"
    using uriSafe_not_slash by (auto simp: list_all_iff)
  have dec: "spec_percent_decode seg = Some t" using seg by (rule decode_encodeURIComponent)
  have sub: "submit ucd st = (None, commit st (st\<lparr>submittedTerm := t,
                 imageUrl := Some (basePath @ seg @ lit ''.png'')\<rparr>))"
    using submit_resolved[OF assms(1,2) url] .
  have img: "imageUrl (snd (submit ucd st)) = Some (basePath @ seg @ lit ''.png'')"
    by (simp add: sub commit_def imageUrlEffect_def)
  have base: "last basePath = 0x2F" by (simp add: basePath_def lit_def)
  have ord: "list_all isAscii (searchTerm st) \<longrightarrow> t = trim (toLowerCase ucd (searchTerm st))"
    using assms(1) trim_toLowerCase_ascii[of "searchTerm st" ucd] by simp
  show ?thesis using sub img base safe noslash dec ord by auto
qed

text \<open>
  The theorem for the text \<open>" Ca sa "\<close> submitted in the initial state; its segment is
  \<open>ca%20sa\<close>.
\<close>

theorem submit_url_decodes_witness:
  "toLowerCase id (trim (searchTerm (initial\<lparr>searchTerm := lit '' Ca sa ''\<rparr>))) = lit ''ca sa''
   \<and> lit ''ca sa'' \<noteq> [] \<and> wellFormed (lit ''ca sa'')
   \<and> (\<exists>seg. fst (submit id (initial\<lparr>searchTerm := lit '' Ca sa ''\<rparr>)) = None
           \<and> imageUrl (snd (submit id (initial\<lparr>searchTerm := lit '' Ca sa ''\<rparr>)))
               = Some (basePath @ seg @ lit ''.png'')
           \<and> list_all uriSafe seg \<and> 0x2F \<notin> set seg
           \<and> spec_percent_decode seg = Some (lit ''ca sa''))
   \<and> last basePath = 0x2F
   \<and> list_all isAscii (searchTerm (initial\<lparr>searchTerm := lit '' Ca sa ''\<rparr>))
   \<and> lit ''ca sa'' = trim (toLowerCase id (searchTerm (initial\<lparr>searchTerm := lit '' Ca sa ''\<rparr>)))
   \<and> encodeURIComponent (lit ''ca sa'') = Inr (lit ''ca%20sa'')"
proof -
  have a: "toLowerCase id (trim (searchTerm (initial\<lparr>searchTerm := lit '' Ca sa ''\<rparr>))) = lit ''ca sa''"
    by (simp add: string_defs)
  have b: "lit ''ca sa'' \<noteq> []" by (simp add: lit_def)
  have c: "wellFormed (lit ''ca sa'')" by (simp add: string_defs)
  have d: "list_all isAscii (searchTerm (initial\<lparr>searchTerm := lit '' Ca sa ''\<rparr>))"
    by (simp add: string_defs)
  have e: "encodeURIComponent (lit ''ca sa'') = Inr (lit ''ca%20sa'')"
    by (simp add: string_defs)
  from submit_url_decodes[OF a b c] a b c d e show ?thesis by blast
qed

text \<open>
  C1 as stated fails: the string of one space is not empty, and submitting it produces no
  address.
\<close>

theorem submit_whitespace_no_url:
  "lit '' '' \<noteq> [] \<and> imageUrl (snd (submit id (initial\<lparr>searchTerm := lit '' ''\<rparr>))) = None"
  by (simp add: string_defs app_defs)

subsection \<open>C2: an empty submission resets\<close>

text \<open>
  C2. From every reachable state, submitting a text that is empty, consists of white space
  only, or otherwise normalizes to the empty term raises nothing and leaves the display
  \<open>Idle\<close>: the address and the submitted term are cleared, the error is cleared and no
  error box is rendered.
\<close>

theorem submit_empty_resets:
  assumes "reachable ucd st"
    and "list_all isWhiteSpace (searchTerm st) \<or> toLowerCase ucd (trim (searchTerm st)) = []"
  shows "fst (submit ucd st) = None
       \<and> phase (snd (submit ucd st)) = Idle
       \<and> imageUrl (snd (submit ucd st)) = None
       \<and> submittedTerm (snd (submit ucd st)) = []
       \<and> error (snd (submit ucd st)) = None
       \<and> errorBox (render (snd (submit ucd st))) = None"
proof -
  have empty: "toLowerCase ucd (trim (searchTerm st)) = []"
    using assms(2) by (auto simp: trim_whitespace toLowerCase_Nil)
  have c: "consistent st" using assms(1) by (rule reachable_consistent)
  have sub: "submit ucd st = (None, commit st (st\<lparr>imageUrl := None, submittedTerm := []\<rparr>))"
    using empty by (rule submit_empty)
  have err: "error (commit st (st\<lparr>imageUrl := None, submittedTerm := []\<rparr>)) = None"
    using c by (auto simp: commit_def imageUrlEffect_def consistent_def truthy_def)
  have img: "imageUrl (commit st (st\<lparr>imageUrl := None, submittedTerm := []\<rparr>)) = None"
    by (simp add: commit_def imageUrlEffect_def)
  have trm: "submittedTerm (commit st (st\<lparr>imageUrl := None, submittedTerm := []\<rparr>)) = []"
    by (simp add: commit_def imageUrlEffect_def)
  have ph: "phase (commit st (st\<lparr>imageUrl := None, submittedTerm := []\<rparr>)) = Idle"
    using err img by (simp add: phase_eq showsPlaceholder_def truthy_def)
  have box: "errorBox (render (commit st (st\<lparr>imageUrl := None, submittedTerm := []\<rparr>))) = None"
    using err img by (simp add: render_def showsPlaceholder_def truthy_def)
  show ?thesis by (simp add: sub err img trm ph box)
qed

text \<open>
  The theorem for two spaces submitted after the load for \<open>casa\<close> has failed.
\<close>

theorem submit_empty_resets_witness:
  "reachable id (dispatch id casaFailed (Change (lit ''  '')))
   \<and> list_all isWhiteSpace (searchTerm (dispatch id casaFailed (Change (lit ''  ''))))
   \<and> phase (dispatch id casaFailed (Change (lit ''  ''))) = Failure
   \<and> fst (submit id (dispatch id casaFailed (Change (lit ''  '')))) = None
   \<and> phase (snd (submit id (dispatch id casaFailed (Change (lit ''  ''))))) = Idle
   \<and> imageUrl (snd (submit id (dispatch id casaFailed (Change (lit ''  ''))))) = None
   \<and> submittedTerm (snd (submit id (dispatch id casaFailed (Change (lit ''  ''))))) = []
   \<and> error (snd (submit id (dispatch id casaFailed (Change (lit ''  ''))))) = None
   \<and> errorBox (render (snd (submit id (dispatch id casaFailed (Change (lit ''  '')))))) = None"
proof -
  let ?st = "dispatch id casaFailed (Change (lit ''  ''))"
  have r: "reachable id ?st" by (rule reachable_dispatch[OF reachable_casaFailed])
  have w: "list_all isWhiteSpace (searchTerm ?st)"
    by (simp add: lit_def isWhiteSpace_def)
  have f: "phase ?st = Failure"
    by (simp add: phase_eq casaFailed_eq showsPlaceholder_def truthy_def lit_def
        notFoundMessage_def)
  from submit_empty_resets[OF r disjI1[OF w]] r w f show ?thesis by simp
qed

subsection \<open>C3: submitting casa\<close>

text \<open>
  C3, as amended. Whatever the state, submitting a text whose normalized term is \<open>casa\<close>
  raises nothing, records \<open>casa\<close> as submitted term and sets the address to the base path
  followed by \<open>casa.png\<close>, which ends in \<open>/casa.png\<close>. When the address was a different
  one, or none, the display becomes \<open>Pending\<close>: loading, with no error. When the address
  was that one already, the displayed state, the loading flag and the error stay as they
  were.
\<close>

theorem submit_casa:
  assumes "toLowerCase ucd (trim (searchTerm st)) = lit ''casa''"
  shows "fst (submit ucd st) = None
       \<and> imageUrl (snd (submit ucd st)) = Some (basePath @ lit ''casa.png'')
       \<and> suffix (lit ''/casa.png'') (basePath @ lit ''casa.png'')
       \<and> submittedTerm (snd (submit ucd st)) = lit ''casa''
       \<and> (imageUrl st \<noteq> Some (basePath @ lit ''casa.png'') \<longrightarrow>
            phase (snd (submit ucd st)) = Pending
            \<and> isLoading (snd (submit ucd st)) \<and> error (snd (submit ucd st)) = None)
       \<and> (imageUrl st = Some (basePath @ lit ''casa.png'') \<longrightarrow>
            phase (snd (submit ucd st)) = phase st
            \<and> isLoading (snd (submit ucd st)) = isLoading st
            \<and> error (snd (submit ucd st)) = error st)"
proof -
  have ne: "lit ''casa'' \<noteq> []" by (simp add: lit_def)
  have url: "resolveUrl (lit ''casa'') = Inr (basePath @ lit ''casa.png'')"
    by (simp add: resolveUrl_def string_defs)
  have suf: "suffix (lit ''/casa.png'') (basePath @ lit ''casa.png'')"
    by (simp add: basePath_def lit_def suffix_def)
  have nonempty: "basePath @ lit ''casa.png'' \<noteq> []" by (simp add: lit_def)
  show ?thesis
  proof (cases "imageUrl st = Some (basePath @ lit ''casa.png'')")
    case True
    have sub: "submit ucd st
        = (None, st\<lparr>submittedTerm := lit ''casa'', imageUrl := Some (basePath @ lit ''casa.png'')\<rparr>)"
      using submit_same_reference[OF assms ne url True] .
    have ph: "phase (st\<lparr>submittedTerm := lit ''casa'',
                 imageUrl := Some (basePath @ lit ''casa.png'')\<rparr>) = phase st"
      using True by (intro phase_cong) simp_all
    show ?thesis using suf True ph by (simp add: sub)
  next
    case False
    from submit_new_reference[OF assms ne url False] suf False
      phase_new_reference[OF nonempty, where st = st and t = "lit ''casa''"]
    show ?thesis by simp
  qed
qed

text \<open>
  The theorem for \<open>"Casa "\<close> and for \<open>"casa"\<close>, each submitted in the initial state, and
  for \<open>casa\<close> submitted again while its load is pending.
\<close>

theorem submit_casa_witness:
  "toLowerCase id (trim (searchTerm (initial\<lparr>searchTerm := lit ''Casa ''\<rparr>))) = lit ''casa''
   \<and> toLowerCase id (trim (searchTerm (initial\<lparr>searchTerm := lit ''casa''\<rparr>))) = lit ''casa''
   \<and> imageUrl (initial\<lparr>searchTerm := lit ''Casa ''\<rparr>) \<noteq> Some (basePath @ lit ''casa.png'')
   \<and> fst (submit id (initial\<lparr>searchTerm := lit ''Casa ''\<rparr>)) = None
   \<and> imageUrl (snd (submit id (initial\<lparr>searchTerm := lit ''Casa ''\<rparr>)))
        = Some (basePath @ lit ''casa.png'')
   \<and> suffix (lit ''/casa.png'') (basePath @ lit ''casa.png'')
   \<and> submittedTerm (snd (submit id (initial\<lparr>searchTerm := lit ''Casa ''\<rparr>))) = lit ''casa''
   \<and> phase (snd (submit id (initial\<lparr>searchTerm := lit ''Casa ''\<rparr>))) = Pending
   \<and> isLoading (snd (submit id (initial\<lparr>searchTerm := lit ''Casa ''\<rparr>)))
   \<and> error (snd (submit id (initial\<lparr>searchTerm := lit ''Casa ''\<rparr>))) = None
   \<and> phase (snd (submit id (initial\<lparr>searchTerm := lit ''casa''\<rparr>))) = Pending
   \<and> toLowerCase id (trim (searchTerm casaPending)) = lit ''casa''
   \<and> imageUrl casaPending = Some (basePath @ lit ''casa.png'')
   \<and> phase (snd (submit id casaPending)) = phase casaPending
   \<and> isLoading (snd (submit id casaPending)) = isLoading casaPending
   \<and> error (snd (submit id casaPending)) = error casaPending"
proof -
  have a: "toLowerCase id (trim (searchTerm (initial\<lparr>searchTerm := lit ''Casa ''\<rparr>))) = lit ''casa''"
    by (simp add: string_defs)
  have b: "toLowerCase id (trim (searchTerm (initial\<lparr>searchTerm := lit ''casa''\<rparr>))) = lit ''casa''"
    by (simp add: string_defs)
  have c: "imageUrl (initial\<lparr>searchTerm := lit ''Casa ''\<rparr>) \<noteq> Some (basePath @ lit ''casa.png'')"
    "imageUrl (initial\<lparr>searchTerm := lit ''casa''\<rparr>) \<noteq> Some (basePath @ lit ''casa.png'')"
    by (simp_all add: initial_def)
  have d: "toLowerCase id (trim (searchTerm casaPending)) = lit ''casa''"
    by (simp add: casaPending_eq) (simp add: string_defs)
  have e: "imageUrl casaPending = Some (basePath @ lit ''casa.png'')"
    by (simp add: casaPending_eq)
  from submit_casa[OF a] submit_casa[OF b] submit_casa[OF d] a b c d e show ?thesis by simp
qed

text \<open>
  C3 as stated fails: after the load for \<open>casa\<close> has failed, submitting \<open>casa\<close> again
  leaves the display in \<open>Failure\<close>, and after that load has succeeded it leaves the
  display in \<open>Success\<close>; in neither case is the display \<open>Pending\<close>.
\<close>

theorem resubmit_casa_not_pending:
  "toLowerCase id (trim (searchTerm casaFailed)) = lit ''casa''
   \<and> phase casaFailed = Failure
   \<and> phase (snd (submit id casaFailed)) = Failure
   \<and> \<not> isLoading (snd (submit id casaFailed))
   \<and> error (snd (submit id casaFailed)) = Some (notFoundMessage (lit ''casa''))
   \<and> toLowerCase id (trim (searchTerm
         (dispatch id casaPending (ImageLoad (basePath @ lit ''casa.png''))))) = lit ''casa''
   \<and> phase (dispatch id casaPending (ImageLoad (basePath @ lit ''casa.png''))) = Success
   \<and> phase (snd (submit id
         (dispatch id casaPending (ImageLoad (basePath @ lit ''casa.png''))))) = Success"
  by (simp add: phase_eq casaFailed_eq casaPending_eq app_defs string_defs notFoundMessage_def)

subsection \<open>C4: a failed load names the submitted term\<close>

text \<open>
  C4. Let a term be submitted and let events other than a submission follow. If the display
  is then \<open>Pending\<close> and the image element reports a failure, the display becomes
  \<open>Failure\<close>, and the error box shows the message built from the normalized term that was
  submitted, which contains that term.
\<close>

theorem load_failure_names_term:
  assumes "Submit \<notin> set es" and "phase (run ucd (snd (submit ucd st)) es) = Pending"
  shows "phase (dispatch ucd (run ucd (snd (submit ucd st)) es) (ImageError src)) = Failure
       \<and> errorBox (render (dispatch ucd (run ucd (snd (submit ucd st)) es) (ImageError src)))
           = Some (notFoundMessage (toLowerCase ucd (trim (searchTerm st))))
       \<and> sublist (toLowerCase ucd (trim (searchTerm st)))
           (notFoundMessage (toLowerCase ucd (trim (searchTerm st))))"
proof -
  have "submittedTerm (run ucd (snd (submit ucd st)) es) = toLowerCase ucd (trim (searchTerm st))"
    using run_keeps[OF assms(1), of ucd "snd (submit ucd st)"]
    by (simp add: submit_submittedTerm)
  then show ?thesis
    using imageError_pending[OF assms(2), of ucd src] sublist_notFoundMessage by simp
qed

text \<open>
  The theorem for \<open>"Casa "\<close> submitted in the initial state, followed by typing \<open>gato\<close>
  without submitting it.
\<close>

theorem load_failure_names_term_witness:
  "Submit \<notin> set [Change (lit ''gato'')]
   \<and> phase (run id (snd (submit id (initial\<lparr>searchTerm := lit ''Casa ''\<rparr>)))
        [Change (lit ''gato'')]) = Pending
   \<and> phase (dispatch id (run id (snd (submit id (initial\<lparr>searchTerm := lit ''Casa ''\<rparr>)))
        [Change (lit ''gato'')]) (ImageError (basePath @ lit ''casa.png''))) = Failure
   \<and> errorBox (render (dispatch id (run id (snd (submit id
        (initial\<lparr>searchTerm := lit ''Casa ''\<rparr>))) [Change (lit ''gato'')])
        (ImageError (basePath @ lit ''casa.png''))))
       = Some (notFoundMessage (toLowerCase id (trim (searchTerm (initial\<lparr>searchTerm := lit ''Casa ''\<rparr>)))))
   \<and> sublist (toLowerCase id (trim (searchTerm (initial\<lparr>searchTerm := lit ''Casa ''\<rparr>))))
        (notFoundMessage (toLowerCase id (trim (searchTerm (initial\<lparr>searchTerm := lit ''Casa ''\<rparr>)))))
   \<and> toLowerCase id (trim (searchTerm (initial\<lparr>searchTerm := lit ''Casa ''\<rparr>))) = lit ''casa''"
proof -
  have b: "Submit \<notin> set [Change (lit ''gato'')]" by simp
  have c: "phase (run id (snd (submit id (initial\<lparr>searchTerm := lit ''Casa ''\<rparr>)))
        [Change (lit ''gato'')]) = Pending"
    by (simp add: phase_eq app_defs string_defs)
  have d: "toLowerCase id (trim (searchTerm (initial\<lparr>searchTerm := lit ''Casa ''\<rparr>))) = lit ''casa''"
    by (simp add: string_defs)
  from load_failure_names_term[OF b c, of "basePath @ lit ''casa.png''"] b c d
  show ?thesis by blast
qed

subsection \<open>C5: a new term re-enters Pending\<close>

text \<open>
  C5, as amended. From every reachable state whose submitted term is well formed, submitting
  a text whose normalized term is not empty, is well formed and differs from the submitted
  term raises nothing and makes the display \<open>Pending\<close>: the error is cleared, loading is
  set, the term is recorded and the address is the one the term resolves to.
\<close>

theorem submit_new_term_pending:
  assumes "reachable ucd st" and "wellFormed (submittedTerm st)"
    and "toLowerCase ucd (trim (searchTerm st)) = t" and "t \<noteq> []" and "wellFormed t"
    and "t \<noteq> submittedTerm st"
  shows "fst (submit ucd st) = None
       \<and> phase (snd (submit ucd st)) = Pending
       \<and> error (snd (submit ucd st)) = None
       \<and> isLoading (snd (submit ucd st))
       \<and> submittedTerm (snd (submit ucd st)) = t
       \<and> (\<exists>url. resolveUrl t = Inr url \<and> imageUrl (snd (submit ucd st)) = Some url)"
proof -
  from wellFormed_resolveUrl[OF assms(5)] obtain url where url: "resolveUrl t = Inr url" by blast
  have c: "consistent st" using assms(1) by (rule reachable_consistent)
  have d: "imageUrl st \<noteq> Some url"
    using consistent_reference_differs[OF c assms(2) url assms(6)] .
  from submit_new_reference[OF assms(3,4) url d]
    phase_new_reference[OF resolveUrl_nonempty[OF url], where st = st and t = t] url
  show ?thesis by simp
qed

text \<open>
  The theorem for \<open>"Gato"\<close> submitted after the load for \<open>casa\<close> has failed.
\<close>

theorem submit_new_term_pending_witness:
  "reachable id (dispatch id casaFailed (Change (lit ''Gato'')))
   \<and> phase (dispatch id casaFailed (Change (lit ''Gato''))) = Failure
   \<and> wellFormed (submittedTerm (dispatch id casaFailed (Change (lit ''Gato''))))
   \<and> toLowerCase id (trim (searchTerm (dispatch id casaFailed (Change (lit ''Gato'')))))
       = lit ''gato''
   \<and> lit ''gato'' \<noteq> [] \<and> wellFormed (lit ''gato'')
   \<and> lit ''gato'' \<noteq> submittedTerm (dispatch id casaFailed (Change (lit ''Gato'')))
   \<and> fst (submit id (dispatch id casaFailed (Change (lit ''Gato'')))) = None
   \<and> phase (snd (submit id (dispatch id casaFailed (Change (lit ''Gato''))))) = Pending
   \<and> error (snd (submit id (dispatch id casaFailed (Change (lit ''Gato''))))) = None
   \<and> isLoading (snd (submit id (dispatch id casaFailed (Change (lit ''Gato'')))))
   \<and> submittedTerm (snd (submit id (dispatch id casaFailed (Change (lit ''Gato'')))))
       = lit ''gato''
   \<and> (\<exists>url. resolveUrl (lit ''gato'') = Inr url
         \<and> imageUrl (snd (submit id (dispatch id casaFailed (Change (lit ''Gato''))))) = Some url)"
proof -
  let ?st = "dispatch id casaFailed (Change (lit ''Gato''))"
  have r: "reachable id ?st" by (rule reachable_dispatch[OF reachable_casaFailed])
  have st: "submittedTerm ?st = lit ''casa''" "searchTerm ?st = lit ''Gato''"
    by (simp_all add: casaFailed_eq)
  have f: "phase ?st = Failure"
    by (simp add: phase_eq casaFailed_eq showsPlaceholder_def truthy_def lit_def
        notFoundMessage_def)
  have w: "wellFormed (submittedTerm ?st)" unfolding st by (simp add: string_defs)
  have n: "toLowerCase id (trim (searchTerm ?st)) = lit ''gato''"
    unfolding st by (simp add: string_defs)
  have e: "lit ''gato'' \<noteq> []" by (simp add: lit_def)
  have w2: "wellFormed (lit ''gato'')" by (simp add: string_defs)
  have d: "lit ''gato'' \<noteq> submittedTerm ?st" unfolding st by (simp add: lit_def)
  from submit_new_term_pending[OF r w n e w2 d] r f w n e w2 d show ?thesis by blast
qed

text \<open>
  C5 as stated fails: after the load for \<open>casa\<close> has failed, submitting the one-unit string
  made of the lead surrogate U+D800, a non-empty term different from \<open>casa\<close>, leaves the
  display in \<open>Failure\<close>, with the error kept and loading not set. (Lowering leaves an
  unpaired surrogate as it is, which is what the identity table does here.)
\<close>

theorem submit_unpaired_after_failure:
  "phase casaFailed = Failure
   \<and> toLowerCase id (trim [0xD800]) = [0xD800]
   \<and> [0xD800] \<noteq> []
   \<and> [0xD800] \<noteq> submittedTerm casaFailed
   \<and> phase (run id casaFailed [Change [0xD800], Submit]) = Failure
   \<and> error (run id casaFailed [Change [0xD800], Submit]) = error casaFailed
   \<and> \<not> isLoading (run id casaFailed [Change [0xD800], Submit])"
  by (simp add: phase_eq casaFailed_eq app_defs string_defs notFoundMessage_def)

subsection \<open>C7: the resolver on every string\<close>

text \<open>
  C7, as amended. The resolver returns an address for every well-formed string, the empty
  and the white-space-only ones included: the base path, the encoded term and \<open>.png\<close>.
  On a string with an unpaired surrogate it raises \<open>URIError\<close> and returns nothing.
\<close>

theorem resolveUrl_wellFormed:
  "(wellFormed t \<longrightarrow>
      (\<exists>seg. encodeURIComponent t = Inr seg \<and> resolveUrl t = Inr (basePath @ seg @ lit ''.png'')))
   \<and> (\<not> wellFormed t \<longrightarrow> resolveUrl t = Inl URIError)"
  using encodeURIComponent_Inr_iff[of t] encodeURIComponent_Inl_iff[of t]
  by (auto simp: resolveUrl_def)

text \<open>
  The theorem at three inputs: a term with a space, the empty term, and a trail surrogate
  followed by a lead surrogate.
\<close>

theorem resolveUrl_wellFormed_witness:
  "wellFormed (lit ''ca sa'')
   \<and> (\<exists>seg. encodeURIComponent (lit ''ca sa'') = Inr seg
         \<and> resolveUrl (lit ''ca sa'') = Inr (basePath @ seg @ lit ''.png''))
   \<and> wellFormed [] \<and> (\<exists>seg. encodeURIComponent [] = Inr seg
         \<and> resolveUrl [] = Inr (basePath @ seg @ lit ''.png''))
   \<and> \<not> wellFormed [0xDE00, 0xD83D] \<and> resolveUrl [0xDE00, 0xD83D] = Inl URIError"
proof -
  have a: "wellFormed (lit ''ca sa'')" by (simp add: string_defs)
  have b: "wellFormed []" by simp
  have c: "\<not> wellFormed [0xDE00, 0xD83D]" by (simp add: string_defs)
  show ?thesis
    using a b c resolveUrl_wellFormed[of "lit ''ca sa''"] resolveUrl_wellFormed[of "[]"]
      resolveUrl_wellFormed[of "[0xDE00, 0xD83D]"]
    by blast
qed

text \<open>
  C7 as stated fails: on the one-unit string made of the lead surrogate U+D800 the
  resolver raises.
\<close>

theorem resolveUrl_unpaired_surrogate:
  "resolveUrl [0xD800] = Inl URIError"
  by (simp add: resolveUrl_def string_defs)

subsection \<open>C8: the address is set exactly for a non-empty term\<close>

text \<open>
  C8, as amended. Initially there is no address. After a submission whose normalized term is
  well formed, there is an address if and only if that term is not empty, and the events
  that follow, up to the next submission, leave the address as it is.
\<close>

theorem reference_iff_term_nonempty:
  assumes "wellFormed (toLowerCase ucd (trim (searchTerm st)))" and "Submit \<notin> set es"
  shows "imageUrl initial = None
       \<and> (imageUrl (snd (submit ucd st)) \<noteq> None) = (toLowerCase ucd (trim (searchTerm st)) \<noteq> [])
       \<and> imageUrl (run ucd (snd (submit ucd st)) es) = imageUrl (snd (submit ucd st))"
proof -
  define t where "t = toLowerCase ucd (trim (searchTerm st))"
  have "(imageUrl (snd (submit ucd st)) \<noteq> None) = (t \<noteq> [])"
  proof (cases "t = []")
    case True
    then show ?thesis using submit_empty[of ucd st]
      by (simp add: t_def commit_def imageUrlEffect_def)
  next
    case False
    from wellFormed_resolveUrl[OF assms(1)] obtain url where "resolveUrl t = Inr url"
      by (auto simp: t_def)
    from submit_resolved_imageUrl[OF t_def[symmetric] False this] False show ?thesis
      by simp
  qed
  then show ?thesis using run_keeps[OF assms(2), of ucd "snd (submit ucd st)"]
    by (simp add: t_def initial_def)
qed

text \<open>
  The theorem for \<open>"Casa "\<close> submitted in the initial state, followed by a failure
  notification and by typing a space.
\<close>

theorem reference_iff_term_nonempty_witness:
  "wellFormed (toLowerCase id (trim (searchTerm (initial\<lparr>searchTerm := lit ''Casa ''\<rparr>))))
   \<and> Submit \<notin> set [ImageError (basePath @ lit ''casa.png''), Change (lit '' '')]
   \<and> imageUrl initial = None
   \<and> (imageUrl (snd (submit id (initial\<lparr>searchTerm := lit ''Casa ''\<rparr>))) \<noteq> None)
       = (toLowerCase id (trim (searchTerm (initial\<lparr>searchTerm := lit ''Casa ''\<rparr>))) \<noteq> [])
   \<and> toLowerCase id (trim (searchTerm (initial\<lparr>searchTerm := lit ''Casa ''\<rparr>))) \<noteq> []
   \<and> imageUrl (run id (snd (submit id (initial\<lparr>searchTerm := lit ''Casa ''\<rparr>)))
        [ImageError (basePath @ lit ''casa.png''), Change (lit '' '')])
       = imageUrl (snd (submit id (initial\<lparr>searchTerm := lit ''Casa ''\<rparr>)))"
proof -
  have n: "toLowerCase id (trim (searchTerm (initial\<lparr>searchTerm := lit ''Casa ''\<rparr>))) = lit ''casa''"
    by (simp add: string_defs)
  have w: "wellFormed (toLowerCase id (trim (searchTerm (initial\<lparr>searchTerm := lit ''Casa ''\<rparr>))))"
    unfolding n by (simp add: string_defs)
  have s: "Submit \<notin> set [ImageError (basePath @ lit ''casa.png''), Change (lit '' '')]" by simp
  have e: "toLowerCase id (trim (searchTerm (initial\<lparr>searchTerm := lit ''Casa ''\<rparr>))) \<noteq> []"
    unfolding n by (simp add: lit_def)
  from reference_iff_term_nonempty[OF w s] w s e show ?thesis by blast
qed

text \<open>
  C8 as stated fails: submitting the one-unit string made of the lead surrogate U+D800 in
  the initial state produces a non-empty normalized term, raises \<open>URIError\<close> and leaves
  the application without an address. (Lowering leaves an unpaired surrogate as it is,
  which is what the identity table does here.)
\<close>

theorem submit_unpaired_no_reference:
  "toLowerCase id (trim (searchTerm (initial\<lparr>searchTerm := [0xD800]\<rparr>))) \<noteq> []
   \<and> fst (submit id (initial\<lparr>searchTerm := [0xD800]\<rparr>)) = Some URIError
   \<and> imageUrl (snd (submit id (initial\<lparr>searchTerm := [0xD800]\<rparr>))) = None"
  by (simp add: app_defs string_defs)

subsection \<open>C9: a successful load stays successful\<close>

text \<open>
  C9. In a reachable state whose display is \<open>Pending\<close>, a load notification makes the
  display \<open>Success\<close>, and no sequence of events without a submission makes it \<open>Pending\<close>
  again.
\<close>

theorem load_success_stays:
  assumes "reachable ucd st" and "phase st = Pending" and "Submit \<notin> set es"
  shows "phase (dispatch ucd st (ImageLoad src)) = Success
       \<and> phase (run ucd (dispatch ucd st (ImageLoad src)) es) \<noteq> Pending"
proof -
  have c: "consistent st" using assms(1) by (rule reachable_consistent)
  have "\<not> isLoading (run ucd (dispatch ucd st (ImageLoad src)) es)"
    using run_not_loading[OF assms(3) imageLoad_pending(2)[OF c assms(2)]] .
  then have "phase (run ucd (dispatch ucd st (ImageLoad src)) es) \<noteq> Pending"
    by (simp add: phase_Pending)
  then show ?thesis using imageLoad_pending(1)[OF c assms(2)] by simp
qed

text \<open>
  The theorem for the load of \<open>casa\<close>, followed by a failure notification, typing and
  another load notification.
\<close>

theorem load_success_stays_witness:
  "reachable id casaPending
   \<and> phase casaPending = Pending
   \<and> Submit \<notin> set [ImageError (basePath @ lit ''casa.png''), Change (lit ''otra''),
                     ImageLoad (basePath @ lit ''casa.png'')]
   \<and> phase (dispatch id casaPending (ImageLoad (basePath @ lit ''casa.png''))) = Success
   \<and> phase (run id (dispatch id casaPending (ImageLoad (basePath @ lit ''casa.png'')))
        [ImageError (basePath @ lit ''casa.png''), Change (lit ''otra''),
         ImageLoad (basePath @ lit ''casa.png'')]) \<noteq> Pending"
proof -
  have p: "phase casaPending = Pending"
    by (simp add: phase_eq casaPending_eq showsPlaceholder_def truthy_def lit_def)
  have n: "Submit \<notin> set [ImageError (basePath @ lit ''casa.png''), Change (lit ''otra''),
                     ImageLoad (basePath @ lit ''casa.png'')]" by simp
  from load_success_stays[OF reachable_casaPending p n, of "basePath @ lit ''casa.png''"]
    reachable_casaPending p n
  show ?thesis by blast
qed

subsection \<open>C10: submitting the same term again\<close>

text \<open>
  C10. A submission that leaves the address equal to the current one leaves the error, the
  loading flag and so the displayed state as they are. In a reachable state that is the case
  whenever the normalized term equals the submitted term; in particular the same term
  submitted again after a failure leaves the display in \<open>Failure\<close>.
\<close>

theorem resubmit_same_term:
  "(imageUrl (snd (submit ucd st)) = imageUrl st \<longrightarrow>
      error (snd (submit ucd st)) = error st \<and> isLoading (snd (submit ucd st)) = isLoading st
      \<and> phase (snd (submit ucd st)) = phase st)
   \<and> (reachable ucd st \<and> toLowerCase ucd (trim (searchTerm st)) = submittedTerm st \<longrightarrow>
      imageUrl (snd (submit ucd st)) = imageUrl st)"
proof -
  have frame: "error (snd (handleSubmit ucd st)) = error st
      \<and> isLoading (snd (handleSubmit ucd st)) = isLoading st"
    by (simp add: handleSubmit_def Let_def split: sum.splits)
  have one: "imageUrl (snd (submit ucd st)) = imageUrl st \<longrightarrow>
      error (snd (submit ucd st)) = error st \<and> isLoading (snd (submit ucd st)) = isLoading st
      \<and> phase (snd (submit ucd st)) = phase st"
  proof
    assume same: "imageUrl (snd (submit ucd st)) = imageUrl st"
    have img: "imageUrl (snd (submit ucd st)) = imageUrl (snd (handleSubmit ucd st))"
      by (cases "handleSubmit ucd st")
         (simp add: submit_def commit_def imageUrlEffect_def)
    then have "snd (submit ucd st) = snd (handleSubmit ucd st)"
      using same by (cases "handleSubmit ucd st") (simp add: submit_def commit_def)
    then have "error (snd (submit ucd st)) = error st"
      "isLoading (snd (submit ucd st)) = isLoading st"
      using frame by simp_all
    then show "error (snd (submit ucd st)) = error st
      \<and> isLoading (snd (submit ucd st)) = isLoading st
      \<and> phase (snd (submit ucd st)) = phase st"
      using phase_cong[OF same] by simp
  qed
  have two: "reachable ucd st \<and> toLowerCase ucd (trim (searchTerm st)) = submittedTerm st \<longrightarrow>
      imageUrl (snd (submit ucd st)) = imageUrl st"
  proof
    assume a: "reachable ucd st \<and> toLowerCase ucd (trim (searchTerm st)) = submittedTerm st"
    then have c: "consistent st" using reachable_consistent[of ucd st] by blast
    from a have t: "toLowerCase ucd (trim (searchTerm st)) = submittedTerm st" by simp
    show "imageUrl (snd (submit ucd st)) = imageUrl st"
    proof (cases "submittedTerm st = []")
      case True
      then show ?thesis using c submit_empty[of ucd st] t
        by (simp add: commit_def consistent_def)
    next
      case False
      show ?thesis
      proof (cases "resolveUrl (submittedTerm st)")
        case (Inl e)
        from submit_thrown[OF t False Inl] show ?thesis by simp
      next
        case (Inr url)
        then have "imageUrl st = Some url" using c False by (simp add: consistent_def)
        from submit_same_reference[OF t False Inr this] this show ?thesis by simp
      qed
    qed
  qed
  from one two show ?thesis by blast
qed

text \<open>
  The theorem for \<open>" CASA"\<close> submitted after the load for \<open>casa\<close> has failed.
\<close>

theorem resubmit_same_term_witness:
  "reachable id (dispatch id casaFailed (Change (lit '' CASA'')))
   \<and> toLowerCase id (trim (searchTerm (dispatch id casaFailed (Change (lit '' CASA'')))))
       = submittedTerm (dispatch id casaFailed (Change (lit '' CASA'')))
   \<and> phase (dispatch id casaFailed (Change (lit '' CASA''))) = Failure
   \<and> imageUrl (snd (submit id (dispatch id casaFailed (Change (lit '' CASA'')))))
       = imageUrl (dispatch id casaFailed (Change (lit '' CASA'')))
   \<and> error (snd (submit id (dispatch id casaFailed (Change (lit '' CASA'')))))
       = error (dispatch id casaFailed (Change (lit '' CASA'')))
   \<and> isLoading (snd (submit id (dispatch id casaFailed (Change (lit '' CASA'')))))
       = isLoading (dispatch id casaFailed (Change (lit '' CASA'')))
   \<and> phase (snd (submit id (dispatch id casaFailed (Change (lit '' CASA''))))) = Failure"
proof -
  let ?st = "dispatch id casaFailed (Change (lit '' CASA''))"
  have r: "reachable id ?st" by (rule reachable_dispatch[OF reachable_casaFailed])
  have st: "submittedTerm ?st = lit ''casa''" "searchTerm ?st = lit '' CASA''"
    by (simp_all add: casaFailed_eq)
  have t: "toLowerCase id (trim (searchTerm ?st)) = submittedTerm ?st"
    unfolding st by (simp add: string_defs)
  have f: "phase ?st = Failure"
    by (simp add: phase_eq casaFailed_eq showsPlaceholder_def truthy_def lit_def
        notFoundMessage_def)
  from resubmit_same_term[of id ?st] r t f show ?thesis by simp
qed

end
